theory Spec2Isabelle
  imports Main
begin

section \<open>The BACS batch formatter: \<open>process_csv\<close> of \<open>src/app.py\<close>\<close>

text \<open>
  \<open>process_csv(df, debtor_name, debtor_account, batch_id, contra_sort_code)\<close> checks that
  the data frame has the six required columns, builds a list of eight-field records
  (four header records, one PAY record per row, one CONTRA record, three trailer
  records) and writes the list with \<open>csv.writer\<close>.

  What Python leaves to its libraries is explicit here:
  \<^item> a cell of the data frame is a number, a string or \<open>None\<close>;
  \<^item> the arithmetic of \<open>float\<close> is a parameter (\<open>float_ops\<close>): every theorem holds for
    any parsing, summing and formatting of numbers;
  \<^item> the clock read by \<open>datetime.today()\<close> is an argument;
  \<^item> an exception is a value of the type \<open>error\<close>;
  \<^item> the local variables that the loop assigns live in a \<open>frame\<close>, next to the objects
    the arguments refer to, and the call returns the frame it ends with.
\<close>

subsection \<open>Cells, rows and the data frame\<close>

datatype 'f cell = Number 'f | Text string | Missing

type_synonym 'f row = "string \<Rightarrow> 'f cell"

record 'f dataframe =
  columns :: "string list"
  rows :: "'f row list"

text \<open>\<open>df["amount"]\<close>: one column of the frame, in row order.\<close>

definition column :: "'f dataframe \<Rightarrow> string \<Rightarrow> 'f cell list" where
  "column d name = map (\<lambda>r. r name) (rows d)"

subsection \<open>Numbers\<close>

text \<open>
  The operations on numbers that \<open>process_csv\<close> calls:
  \<open>float(s)\<close> on a string (\<open>None\<close> where Python raises \<open>ValueError\<close>),
  the format \<open>f"{x:.2f}"\<close>, the sum of a numeric column, the literal \<open>0.0\<close>,
  and \<open>str(x)\<close>, which \<open>csv.writer\<close> applies to a field that is a number.
\<close>

record 'f float_ops =
  float_of_str :: "string \<Rightarrow> 'f option"
  format_2f :: "'f \<Rightarrow> string"
  fsum :: "'f list \<Rightarrow> 'f"
  fzero :: "'f"
  str_of :: "'f \<Rightarrow> string"

text \<open>\<open>float(v)\<close> on a cell; \<open>float(None)\<close> raises \<open>TypeError\<close>. \<open>None\<close> stands for
  any exception, since the caller catches \<open>Exception\<close>.\<close>

fun to_float :: "'f float_ops \<Rightarrow> 'f cell \<Rightarrow> 'f option" where
  "to_float ops (Number x) = Some x"
| "to_float ops (Text s) = float_of_str ops s"
| "to_float ops Missing = None"

subsection \<open>Errors\<close>

datatype error =
    MissingColumns "string set"
  | UnboundLocalError
  | TypeError
  | ValueError

subsection \<open>The aggregate \<open>df["amount"].sum()\<close>\<close>

fun is_text :: "'f cell \<Rightarrow> bool" where
  "is_text (Text s) = True"
| "is_text _ = False"

fun numbers :: "'f cell list \<Rightarrow> 'f list" where
  "numbers [] = []"
| "numbers (Number x # cs) = x # numbers cs"
| "numbers (_ # cs) = numbers cs"

fun texts :: "'f cell list \<Rightarrow> string list" where
  "texts [] = []"
| "texts (Text s # cs) = s # texts cs"
| "texts (_ # cs) = texts cs"

text \<open>
  The sum of a column skips missing values. Numbers add up to a number; strings are
  added with \<open>+\<close>, which joins them; a string added to a number raises \<open>TypeError\<close>
  (a missing value counts as the number zero there).
\<close>

definition series_sum :: "'f float_ops \<Rightarrow> 'f cell list \<Rightarrow> error + 'f cell" where
  "series_sum ops cs =
     (if \<forall>c \<in> set cs. \<not> is_text c then Inr (Number (fsum ops (numbers cs)))
      else if \<forall>c \<in> set cs. is_text c then Inr (Text (concat (texts cs)))
      else Inl TypeError)"

text \<open>\<open>f"{total:.2f}"\<close>: the format code \<open>f\<close> raises \<open>ValueError\<close> on a string and
  \<open>TypeError\<close> on \<open>None\<close>.\<close>

fun format_total :: "'f float_ops \<Rightarrow> 'f cell \<Rightarrow> error + string" where
  "format_total ops (Number x) = Inr (format_2f ops x)"
| "format_total ops (Text s) = Inl ValueError"
| "format_total ops Missing = Inl TypeError"

subsection \<open>The issue date\<close>

record datetime =
  year :: nat
  month :: nat
  day :: nat
  hour :: nat
  minute :: nat
  second :: nat
  microsecond :: nat

definition digit_char :: "nat \<Rightarrow> char" where
  "digit_char n = ''0123456789'' ! (n mod 10)"

text \<open>The last \<open>w\<close> decimal digits of \<open>n\<close>, zero-padded on the left.\<close>

fun zero_pad :: "nat \<Rightarrow> nat \<Rightarrow> string" where
  "zero_pad 0 n = []"
| "zero_pad (Suc w) n = zero_pad w (n div 10) @ [digit_char n]"

text \<open>\<open>strftime('%Y-%m-%d')\<close>. A \<open>datetime\<close> has a year of at most 9999, a month of at
  most 12 and a day of at most 31, so no digit is cut off.\<close>

definition strftime_ymd :: "datetime \<Rightarrow> string" where
  "strftime_ymd t = zero_pad 4 (year t) @ ''-'' @ zero_pad 2 (month t) @ ''-'' @ zero_pad 2 (day t)"

subsection \<open>Arguments and local variables\<close>

record 'f inputs =
  df :: "'f dataframe"
  debtor_name :: string
  debtor_account :: string
  batch_id :: string
  contra_sort_code :: string

text \<open>
  \<open>args\<close> holds the objects the five parameters refer to. \<open>records\<close> is the list the
  function appends to (empty until \<open>records = []\<close> has run and a record is appended).
  \<open>amount_val\<close> and \<open>amount_valu\<close> are the two names the loop assigns; \<open>None\<close> is a name
  that is not bound yet.
\<close>

record 'f frame =
  args :: "'f inputs"
  records :: "'f cell list list"
  amount_val :: "'f option"
  amount_valu :: "'f option"

definition enter :: "'f inputs \<Rightarrow> 'f frame" where
  "enter a = \<lparr>args = a, records = [], amount_val = None, amount_valu = None\<rparr>"

definition append_record :: "'f cell list \<Rightarrow> 'f frame \<Rightarrow> 'f frame" where
  "append_record r s = s\<lparr>records := records s @ [r]\<rparr>"

subsection \<open>Validation\<close>

definition required_cols :: "string set" where
  "required_cols = {''beneficiary_name'', ''beneficiary_sort_code'', ''beneficiary_account'',
     ''amount'', ''payment_reference'', ''processing_date''}"

subsection \<open>The records\<close>

abbreviation empty_field :: "'f cell" where
  "empty_field \<equiv> Text []"

definition header_block :: "string \<Rightarrow> 'f inputs \<Rightarrow> 'f cell list list" where
  "header_block today a =
     [[Text ''VOL'', Text ''001'', Text ''HSBC'', Text today,
       empty_field, empty_field, empty_field, empty_field],
      [Text ''HDR1'', Text (debtor_name a), Text (debtor_account a), Text ''HSBC'', Text today,
       empty_field, empty_field, empty_field],
      [Text ''HDR2'', Text (''Payment Batch '' @ batch_id a), Text (batch_id a),
       empty_field, empty_field, empty_field, empty_field, empty_field],
      [Text ''UHL1'', Text (debtor_name a), Text (debtor_account a),
       empty_field, empty_field, empty_field, empty_field, empty_field]]"

definition pay_record :: "'f row \<Rightarrow> string \<Rightarrow> 'f cell list" where
  "pay_record row amount =
     [Text ''PAY'', row ''beneficiary_name'', row ''beneficiary_sort_code'',
      row ''beneficiary_account'', Text amount, row ''payment_reference'',
      row ''processing_date'', empty_field]"

definition contra_record :: "'f inputs \<Rightarrow> string \<Rightarrow> 'f cell list" where
  "contra_record a formatted =
     [Text ''CONTRA'', Text (debtor_name a), Text (contra_sort_code a), Text (debtor_account a),
      Text formatted, empty_field, empty_field, empty_field]"

definition trailer_block :: "'f cell list list" where
  "trailer_block =
     [[Text ''EOF1'', Text ''End of File'',
       empty_field, empty_field, empty_field, empty_field, empty_field, empty_field],
      [Text ''EOF2'', Text ''Checksum'',
       empty_field, empty_field, empty_field, empty_field, empty_field, empty_field],
      [Text ''UTL1'', Text ''Processing Complete'',
       empty_field, empty_field, empty_field, empty_field, empty_field, empty_field]]"

subsection \<open>The loop over the rows\<close>

text \<open>
  \<^verbatim>\<open>
  try:
      amount_val = float(row["amount"])
  except Exception:
      amount_valu = 0.0
  records.append(["PAY", ..., f"{amount_val:.2f}", ..., ""])
  \<close>
  The handler assigns \<open>amount_valu\<close>, not \<open>amount_val\<close>. Reading \<open>amount_val\<close> while it is
  unbound raises \<open>UnboundLocalError\<close>, which nothing catches.
\<close>

definition try_float :: "'f float_ops \<Rightarrow> 'f row \<Rightarrow> 'f frame \<Rightarrow> 'f frame" where
  "try_float ops row s =
     (case to_float ops (row ''amount'') of
        Some x \<Rightarrow> s\<lparr>amount_val := Some x\<rparr>
      | None \<Rightarrow> s\<lparr>amount_valu := Some (fzero ops)\<rparr>)"

definition pay_step :: "'f float_ops \<Rightarrow> 'f row \<Rightarrow> 'f frame \<Rightarrow> error option \<times> 'f frame" where
  "pay_step ops row s =
     (let s1 = try_float ops row s in
      case amount_val s1 of
        None \<Rightarrow> (Some UnboundLocalError, s1)
      | Some v \<Rightarrow> (None, append_record (pay_record row (format_2f ops v)) s1))"

fun pay_loop :: "'f float_ops \<Rightarrow> 'f row list \<Rightarrow> 'f frame \<Rightarrow> error option \<times> 'f frame" where
  "pay_loop ops [] s = (None, s)"
| "pay_loop ops (row # rest) s =
     (case pay_step ops row s of
        (Some e, s1) \<Rightarrow> (Some e, s1)
      | (None, s1) \<Rightarrow> pay_loop ops rest s1)"

subsection \<open>Writing the records: \<open>csv.writer(output).writerows(records)\<close>\<close>

abbreviation delimiter :: char where "delimiter \<equiv> CHR '',''"
abbreviation quotechar :: char where "quotechar \<equiv> CHR 0x22"
abbreviation CR :: char where "CR \<equiv> CHR 0x0D"
abbreviation LF :: char where "LF \<equiv> CHR 0x0A"

text \<open>The writer takes a string as it is, writes \<open>None\<close> as the empty string and
  any other value as \<open>str\<close> of it.\<close>

fun field_text :: "'f float_ops \<Rightarrow> 'f cell \<Rightarrow> string" where
  "field_text ops (Text s) = s"
| "field_text ops Missing = []"
| "field_text ops (Number x) = str_of ops x"

text \<open>Minimal quoting: a field is quoted when it holds the delimiter, the quote
  character or a character of the line terminator; a quote inside is doubled.\<close>

definition needs_quotes :: "string \<Rightarrow> bool" where
  "needs_quotes f = (\<exists>c \<in> set f. c = delimiter \<or> c = quotechar \<or> c = CR \<or> c = LF)"

fun double_quotes :: "string \<Rightarrow> string" where
  "double_quotes [] = []"
| "double_quotes (c # cs) = (if c = quotechar then [quotechar, quotechar] else [c]) @ double_quotes cs"

definition join_append :: "string \<Rightarrow> string" where
  "join_append f = (if needs_quotes f then [quotechar] @ double_quotes f @ [quotechar] else f)"

fun join_fields :: "string list \<Rightarrow> string" where
  "join_fields [] = []"
| "join_fields [f] = join_append f"
| "join_fields (f # fs) = join_append f @ [delimiter] @ join_fields fs"

text \<open>A record of one empty field is written as two quote characters, so that the
  line is not empty.\<close>

definition writerow :: "string list \<Rightarrow> string" where
  "writerow fs = (if fs = [[]] then [quotechar, quotechar] else join_fields fs) @ [CR, LF]"

definition writerows :: "string list list \<Rightarrow> string" where
  "writerows rs = concat (map writerow rs)"

definition serialize :: "'f float_ops \<Rightarrow> 'f cell list list \<Rightarrow> string" where
  "serialize ops rs = writerows (map (map (field_text ops)) rs)"

subsection \<open>\<open>process_csv\<close>\<close>

definition process_csv ::
  "'f float_ops \<Rightarrow> datetime \<Rightarrow> 'f inputs \<Rightarrow> (error + string) \<times> 'f frame" where
  "process_csv ops now a =
     (let s0 = enter a in
      if \<not> required_cols \<subseteq> set (columns (df (args s0)))
      then (Inl (MissingColumns (required_cols - set (columns (df (args s0))))), s0)
      else
        let today = strftime_ymd now;
            s1 = s0\<lparr>records := records s0 @ header_block today (args s0)\<rparr>
        in case pay_loop ops (rows (df (args s1))) s1 of
             (Some e, s2) \<Rightarrow> (Inl e, s2)
           | (None, s2) \<Rightarrow>
               (case series_sum ops (column (df (args s2)) ''amount'') of
                  Inl e \<Rightarrow> (Inl e, s2)
                | Inr total_ammount \<Rightarrow>
                    (case format_total ops total_ammount of
                       Inl e \<Rightarrow> (Inl e, s2)
                     | Inr t \<Rightarrow>
                         let s3 = append_record (contra_record (args s2) t) s2;
                             s4 = s3\<lparr>records := records s3 @ trailer_block\<rparr>
                         in (Inr (serialize ops (records s4)), s4))))"


section \<open>Reading the text back\<close>

text \<open>
  Modelled from the spec: the parser of the round trip. The repository only writes
  the file; the spec asks that parsing the text with the same delimited-text rules
  gives the records back. The reader below follows these rules as Python's
  \<open>csv.reader\<close> applies them to the lines of the text with the default dialect: a
  comma ends a field; a field that starts with a quote runs to the closing quote, two
  quotes inside standing for one; a line break outside quotes ends the record.
  The reader is a machine with six states that takes one character at a time, and the
  event \<open>None\<close> at the end of each line.
\<close>

datatype parser_state =
  START_RECORD | START_FIELD | IN_FIELD | IN_QUOTED_FIELD | QUOTE_IN_QUOTED_FIELD | EAT_CRNL

record reader =
  state :: parser_state
  field :: string
  saved :: "string list"
  returned :: "string list list"

text \<open>\<open>field\<close> is the field being read, \<open>saved\<close> the fields of the current record,
  \<open>returned\<close> the records read so far.\<close>

definition parse_save_field :: "reader \<Rightarrow> reader" where
  "parse_save_field r = r\<lparr>saved := saved r @ [field r], field := []\<rparr>"

definition parse_add_char :: "reader \<Rightarrow> char \<Rightarrow> reader" where
  "parse_add_char r c = r\<lparr>field := field r @ [c]\<rparr>"

definition is_newline :: "char \<Rightarrow> bool" where
  "is_newline c \<longleftrightarrow> c = LF \<or> c = CR"

definition start_field :: "reader \<Rightarrow> char option \<Rightarrow> reader option" where
  "start_field r c =
     (case c of
        None \<Rightarrow> Some ((parse_save_field r)\<lparr>state := START_RECORD\<rparr>)
      | Some ch \<Rightarrow>
          if is_newline ch then Some ((parse_save_field r)\<lparr>state := EAT_CRNL\<rparr>)
          else if ch = quotechar then Some (r\<lparr>state := IN_QUOTED_FIELD\<rparr>)
          else if ch = delimiter then Some (parse_save_field r)
          else Some ((parse_add_char r ch)\<lparr>state := IN_FIELD\<rparr>))"

definition parse_process_char :: "reader \<Rightarrow> char option \<Rightarrow> reader option" where
  "parse_process_char r c =
     (case state r of
        START_RECORD \<Rightarrow>
          (case c of
             None \<Rightarrow> Some r
           | Some ch \<Rightarrow>
               if is_newline ch then Some (r\<lparr>state := EAT_CRNL\<rparr>)
               else start_field (r\<lparr>state := START_FIELD\<rparr>) c)
      | START_FIELD \<Rightarrow> start_field r c
      | IN_FIELD \<Rightarrow>
          (case c of
             None \<Rightarrow> Some ((parse_save_field r)\<lparr>state := START_RECORD\<rparr>)
           | Some ch \<Rightarrow>
               if is_newline ch then Some ((parse_save_field r)\<lparr>state := EAT_CRNL\<rparr>)
               else if ch = delimiter then Some ((parse_save_field r)\<lparr>state := START_FIELD\<rparr>)
               else Some (parse_add_char r ch))
      | IN_QUOTED_FIELD \<Rightarrow>
          (case c of
             None \<Rightarrow> Some r
           | Some ch \<Rightarrow>
               if ch = quotechar then Some (r\<lparr>state := QUOTE_IN_QUOTED_FIELD\<rparr>)
               else Some (parse_add_char r ch))
      | QUOTE_IN_QUOTED_FIELD \<Rightarrow>
          (case c of
             None \<Rightarrow> Some ((parse_save_field r)\<lparr>state := START_RECORD\<rparr>)
           | Some ch \<Rightarrow>
               if ch = quotechar then Some ((parse_add_char r ch)\<lparr>state := IN_QUOTED_FIELD\<rparr>)
               else if ch = delimiter then Some ((parse_save_field r)\<lparr>state := START_FIELD\<rparr>)
               else if is_newline ch then Some ((parse_save_field r)\<lparr>state := EAT_CRNL\<rparr>)
               else Some ((parse_add_char r ch)\<lparr>state := IN_FIELD\<rparr>))
      | EAT_CRNL \<Rightarrow>
          (case c of
             None \<Rightarrow> Some (r\<lparr>state := START_RECORD\<rparr>)
           | Some ch \<Rightarrow> if is_newline ch then Some r else None))"

text \<open>At the end of a line the record is complete unless a quoted field is open.\<close>

definition end_of_line :: "reader \<Rightarrow> reader option" where
  "end_of_line r =
     (case parse_process_char r None of
        None \<Rightarrow> None
      | Some r1 \<Rightarrow>
          if state r1 = START_RECORD
          then Some (r1\<lparr>returned := returned r1 @ [saved r1], saved := [], field := []\<rparr>)
          else Some r1)"

text \<open>A line ends after each line feed.\<close>

definition read_char :: "reader \<Rightarrow> char \<Rightarrow> reader option" where
  "read_char r ch =
     (case parse_process_char r (Some ch) of
        None \<Rightarrow> None
      | Some r1 \<Rightarrow> if ch = LF then end_of_line r1 else Some r1)"

fun read_chars :: "reader \<Rightarrow> string \<Rightarrow> reader option" where
  "read_chars r [] = Some r"
| "read_chars r (ch # rest) =
     (case read_char r ch of None \<Rightarrow> None | Some r1 \<Rightarrow> read_chars r1 rest)"

text \<open>
  At the end of the text, a last line without a line feed ends like any other; a
  quoted field that is still open is closed and its record returned.
\<close>

definition end_of_input :: "reader \<Rightarrow> string list list option" where
  "end_of_input r =
     (if state r = START_RECORD then Some (returned r)
      else case end_of_line r of
        None \<Rightarrow> None
      | Some r1 \<Rightarrow>
          if state r1 = START_RECORD then Some (returned r1)
          else Some (returned r1 @ [saved (parse_save_field r1)]))"

definition new_reader :: reader where
  "new_reader = \<lparr>state = START_RECORD, field = [], saved = [], returned = []\<rparr>"

text \<open>Modelled from the spec: parsing the delimited text into the sequence of its
  records; \<open>None\<close> is a text the rules reject.\<close>

definition csv_reader :: "string \<Rightarrow> string list list option" where
  "csv_reader text =
     (case read_chars new_reader text of None \<Rightarrow> None | Some r \<Rightarrow> end_of_input r)"

text \<open>The parsed text gives the records back, field for field.\<close>

definition recovers :: "'f cell list list \<Rightarrow> string \<Rightarrow> bool" where
  "recovers rs text =
     (case csv_reader text of None \<Rightarrow> False | Some parsed_rows \<Rightarrow> map (map Text) parsed_rows = rs)"

definition plain :: "char \<Rightarrow> bool" where
  "plain c \<longleftrightarrow> c \<noteq> delimiter \<and> c \<noteq> quotechar \<and> c \<noteq> CR \<and> c \<noteq> LF"

definition at_field_start :: "reader \<Rightarrow> bool" where
  "at_field_start r \<longleftrightarrow> (state r = START_RECORD \<or> state r = START_FIELD) \<and> field r = []"

text \<open>The reader after the characters that \<open>join_append f\<close> writes.\<close>

definition after_field :: "reader \<Rightarrow> string \<Rightarrow> reader" where
  "after_field r f =
     (if f = [] then r
      else r\<lparr>state := (if needs_quotes f then QUOTE_IN_QUOTED_FIELD else IN_FIELD), field := f\<rparr>)"


section \<open>Notions used to state the properties\<close>

text \<open>The amounts that \<open>float\<close> accepts, in row order.\<close>

fun parsed :: "'f float_ops \<Rightarrow> 'f row list \<Rightarrow> 'f list" where
  "parsed ops [] = []"
| "parsed ops (r # rs) =
     (case to_float ops (r ''amount'') of None \<Rightarrow> parsed ops rs | Some x \<Rightarrow> x # parsed ops rs)"

text \<open>The PAY record of row \<open>i\<close> carries the last amount parsed among the rows \<open>0, \<dots>, i\<close>.\<close>

definition pay_records :: "'f float_ops \<Rightarrow> 'f row list \<Rightarrow> 'f cell list list" where
  "pay_records ops rs =
     map (\<lambda>i. pay_record (rs ! i) (format_2f ops (last (parsed ops (take (Suc i) rs)))))
       [0..<length rs]"

definition is_pay :: "'f cell list \<Rightarrow> bool" where
  "is_pay y \<longleftrightarrow> (\<exists>r amt. y = pay_record r amt)"

fun is_number :: "'f cell \<Rightarrow> bool" where
  "is_number (Number x) = True"
| "is_number _ = False"



definition is_digit :: "char \<Rightarrow> bool" where
  "is_digit c \<longleftrightarrow> c \<in> set ''0123456789''"

text \<open>Four digits, a hyphen, two digits, a hyphen, two digits.\<close>

definition is_iso_date :: "string \<Rightarrow> bool" where
  "is_iso_date s \<longleftrightarrow>
     length s = 10 \<and> s ! 4 = CHR ''-'' \<and> s ! 7 = CHR ''-''
     \<and> (\<forall>i \<in> set [0, 1, 2, 3, 5, 6, 8, 9]. is_digit (s ! i))"

section \<open>Concrete numbers and inputs\<close>

text \<open>
  An instance of \<open>float_ops\<close> for the examples: a number is a non-negative count of
  hundredths, so \<open>Number 15050\<close> is the amount 150.5. On amounts with at most two
  decimals Python's \<open>float\<close> parses, adds and prints what these functions do.
\<close>

definition digit_val :: "char \<Rightarrow> nat option" where
  "digit_val = map_of [(CHR ''0'', 0), (CHR ''1'', 1), (CHR ''2'', 2), (CHR ''3'', 3), (CHR ''4'', 4),
     (CHR ''5'', 5), (CHR ''6'', 6), (CHR ''7'', 7), (CHR ''8'', 8), (CHR ''9'', 9)]"

fun digits_val :: "string \<Rightarrow> nat \<Rightarrow> nat option" where
  "digits_val [] acc = Some acc"
| "digits_val (c # cs) acc =
     (case digit_val c of None \<Rightarrow> None | Some d \<Rightarrow> digits_val cs (10 * acc + d))"

text \<open>Digits, then at most a point and up to two digits; anything else is not a number.\<close>

definition decimal_of_str :: "string \<Rightarrow> nat option" where
  "decimal_of_str s =
     (let ip = takeWhile (\<lambda>c. c \<noteq> CHR ''.'') s; fp = dropWhile (\<lambda>c. c \<noteq> CHR ''.'') s in
      if ip = [] then None
      else case digits_val ip 0 of
        None \<Rightarrow> None
      | Some n \<Rightarrow>
          (case fp of
             [] \<Rightarrow> Some (100 * n)
           | _ # ds \<Rightarrow>
               if length ds > 2 then None
               else case digits_val ds 0 of
                 None \<Rightarrow> None
               | Some m \<Rightarrow> Some (100 * n + (if length ds = 1 then 10 * m else m))))"

fun show_nat :: "nat \<Rightarrow> string" where
  "show_nat n = (if n < 10 then [digit_char n] else show_nat (n div 10) @ [digit_char n])"

declare show_nat.simps [simp del]

definition decimal_format_2f :: "nat \<Rightarrow> string" where
  "decimal_format_2f p = show_nat (p div 100) @ ''.'' @ zero_pad 2 (p mod 100)"

definition decimal_str :: "nat \<Rightarrow> string" where
  "decimal_str p = show_nat (p div 100) @ ''.'' @
     (if p mod 10 = 0 then zero_pad 1 (p mod 100 div 10) else zero_pad 2 (p mod 100))"

definition decimal_ops :: "nat float_ops" where
  "decimal_ops = \<lparr>float_of_str = decimal_of_str, format_2f = decimal_format_2f,
     fsum = sum_list, fzero = 0, str_of = decimal_str\<rparr>"

text \<open>A row given by its cells; a column that is not listed holds \<open>None\<close>.\<close>

definition mk_row :: "(string \<times> 'f cell) list \<Rightarrow> 'f row" where
  "mk_row kvs name = (case map_of kvs name of Some v \<Rightarrow> v | None \<Rightarrow> Missing)"

definition six_columns :: "string list" where
  "six_columns = [''beneficiary_name'', ''beneficiary_sort_code'', ''beneficiary_account'',
     ''amount'', ''payment_reference'', ''processing_date'']"

definition payment ::
  "'f cell \<Rightarrow> string \<Rightarrow> string \<Rightarrow> 'f cell \<Rightarrow> string \<Rightarrow> string \<Rightarrow> 'f row" where
  "payment name sort_code account amount reference date =
     mk_row [(''beneficiary_name'', name), (''beneficiary_sort_code'', Text sort_code),
       (''beneficiary_account'', Text account), (''amount'', amount),
       (''payment_reference'', Text reference), (''processing_date'', Text date)]"

definition batch :: "'f dataframe \<Rightarrow> 'f inputs" where
  "batch d = \<lparr>df = d, debtor_name = ''ABC Ltd'', debtor_account = ''12345678'',
     batch_id = ''001'', contra_sort_code = ''12-34-56''\<rparr>"

definition morning :: datetime where
  "morning = \<lparr>year = 2024, month = 1, day = 15, hour = 9, minute = 30, second = 0,
     microsecond = 0\<rparr>"

definition smith :: "nat row" where
  "smith = payment (Text ''J Smith'') ''11-22-33'' ''87654321'' (Number 15050) ''INV001''
     ''2024-01-15''"

text \<open>A row whose amount is \<open>None\<close>, which \<open>float\<close> rejects.\<close>

definition jones :: "nat row" where
  "jones = payment (Text ''A Jones, Esq'') ''44-55-66'' ''11223344'' Missing ''INV002''
     ''2024-01-15''"

definition two_payments :: "nat inputs" where
  "two_payments = batch \<lparr>columns = six_columns, rows = [smith, jones]\<rparr>"

definition one_payment :: "nat inputs" where
  "one_payment = batch \<lparr>columns = six_columns, rows = [smith]\<rparr>"

definition no_payments :: "nat inputs" where
  "no_payments = batch \<lparr>columns = six_columns, rows = []\<rparr>"

definition no_amount_column :: "nat inputs" where
  "no_amount_column = batch \<lparr>columns = [''beneficiary_name'', ''beneficiary_sort_code'',
     ''beneficiary_account'', ''payment_reference'', ''processing_date''], rows = [smith]\<rparr>"

definition unparsable_first :: "nat inputs" where
  "unparsable_first = batch \<lparr>columns = six_columns, rows = [jones]\<rparr>"

text \<open>A row whose beneficiary name is \<open>None\<close>.\<close>

definition unnamed_payment :: "nat inputs" where
  "unnamed_payment = batch \<lparr>columns = six_columns, rows =
     [payment Missing ''11-22-33'' ''87654321'' (Number 15050) ''INV001'' ''2024-01-15'']\<rparr>"

text \<open>The amount as a string, as in a column that the loader kept as text.\<close>

definition text_amount :: "nat inputs" where
  "text_amount = batch \<lparr>columns = six_columns, rows =
     [payment (Text ''J Smith'') ''11-22-33'' ''87654321'' (Text ''150.5'') ''INV001''
        ''2024-01-15'']\<rparr>"

lemmas example_defs = batch_def six_columns_def smith_def jones_def payment_def mk_row_def
  decimal_ops_def

lemmas run_defs = process_csv_def Let_def enter_def required_cols_def pay_step_def try_float_def
  append_record_def series_sum_def column_def

section \<open>The loop over the rows\<close>

lemma parsed_append: "parsed ops (xs @ ys) = parsed ops xs @ parsed ops ys"
  by (induction xs) (auto split: option.splits)

lemma last_parsed_take_Suc:
  assumes "i < length rs" and "to_float ops ((rs ! i) ''amount'') = Some x"
  shows "last (parsed ops (take (Suc i) rs)) = x"
  using assms by (simp add: take_Suc_conv_app_nth parsed_append)

lemma pay_records_snoc:
  "pay_records ops (xs @ [x]) =
     pay_records ops xs @ [pay_record x (format_2f ops (last (parsed ops (xs @ [x]))))]"
  by (simp add: pay_records_def nth_append)

lemma length_pay_records [simp]: "length (pay_records ops rs) = length rs"
  by (simp add: pay_records_def)

lemma try_float_args [simp]: "args (try_float ops r s) = args s"
  by (simp add: try_float_def split: option.splits)

lemma try_float_records [simp]: "records (try_float ops r s) = records s"
  by (simp add: try_float_def split: option.splits)

lemma try_float_amount_val:
  "amount_val (try_float ops r s) =
     (case to_float ops (r ''amount'') of Some x \<Rightarrow> Some x | None \<Rightarrow> amount_val s)"
  by (simp add: try_float_def split: option.splits)

lemma pay_step_args [simp]: "args (snd (pay_step ops r s)) = args s"
  by (simp add: pay_step_def Let_def append_record_def split: option.splits)

lemma pay_loop_args [simp]: "args (snd (pay_loop ops rs s)) = args s"
  by (induction rs arbitrary: s) (auto split: prod.splits option.splits dest: arg_cong [where f = "\<lambda>p. args (snd p)"])

lemma pay_step_ok:
  "pay_step ops r s = (None, s1) \<Longrightarrow>
     \<exists>v. amount_val s1 = Some v \<and> amount_val (try_float ops r s) = Some v
       \<and> records s1 = records s @ [pay_record r (format_2f ops v)]"
  by (auto simp: pay_step_def Let_def append_record_def split: option.splits)

lemma pay_step_fail:
  "pay_step ops r s = (Some e, s1) \<Longrightarrow> e = UnboundLocalError \<and> records s1 = records s
     \<and> to_float ops (r ''amount'') = None \<and> amount_val s = None"
  by (auto simp: pay_step_def Let_def append_record_def try_float_def split: option.splits)

lemma pay_loop_append:
  "pay_loop ops (xs @ ys) s =
     (case pay_loop ops xs s of (Some e, s1) \<Rightarrow> (Some e, s1) | (None, s1) \<Rightarrow> pay_loop ops ys s1)"
  by (induction xs arbitrary: s) (auto split: prod.splits option.splits)

lemma pay_loop_snoc_ok:
  assumes "pay_loop ops (xs @ [x]) s = (None, s')"
  obtains s1 where "pay_loop ops xs s = (None, s1)" and "pay_step ops x s1 = (None, s')"
  using assms by (auto simp: pay_loop_append split: prod.splits option.splits)

lemma pay_loop_ok:
  "pay_loop ops rs s = (None, s') \<Longrightarrow> amount_val s = None \<Longrightarrow>
     records s' = records s @ pay_records ops rs
     \<and> amount_val s' = (if parsed ops rs = [] then None else Some (last (parsed ops rs)))"
proof (induction rs arbitrary: s' rule: rev_induct)
  case Nil
  then show ?case by (simp add: pay_records_def)
next
  case (snoc x xs)
  from snoc.prems(1) obtain s1 where
    xs: "pay_loop ops xs s = (None, s1)" and x: "pay_step ops x s1 = (None, s')"
    by (rule pay_loop_snoc_ok)
  from snoc.IH [OF xs snoc.prems(2)] have
    recs: "records s1 = records s @ pay_records ops xs" and
    val: "amount_val s1 = (if parsed ops xs = [] then None else Some (last (parsed ops xs)))"
    by simp_all
  from pay_step_ok [OF x] obtain v where
    v: "amount_val s' = Some v" "amount_val (try_float ops x s1) = Some v"
    and r: "records s' = records s1 @ [pay_record x (format_2f ops v)]"
    by blast
  have lastv: "parsed ops (xs @ [x]) \<noteq> [] \<and> last (parsed ops (xs @ [x])) = v"
    using v(2) val
    by (auto simp: try_float_amount_val parsed_append split: option.splits if_splits)
  show ?case
    using recs r v(1) lastv by (simp add: pay_records_snoc)
qed

section \<open>The aggregate\<close>

lemma total_ok:
  assumes "series_sum ops cs = Inr t" and "format_total ops t = Inr f"
  shows "f = format_2f ops (fsum ops (numbers cs))" and "\<forall>c \<in> set cs. \<not> is_text c"
  using assms by (auto simp: series_sum_def split: if_splits)

lemma total_text:
  assumes "c \<in> set cs" and "is_text c" and "series_sum ops cs = Inr t"
  shows "format_total ops t = Inl ValueError"
  using assms by (auto simp: series_sum_def split: if_splits)

lemma total_numeric:
  assumes "\<forall>c \<in> set cs. \<not> is_text c"
  shows "series_sum ops cs = Inr (Number (fsum ops (numbers cs)))"
  using assms by (simp add: series_sum_def)

lemma pay_step_extends:
  "\<exists>ys. records (snd (pay_step ops r s)) = records s @ ys \<and> (\<forall>y \<in> set ys. is_pay y)"
  by (auto simp: pay_step_def Let_def append_record_def is_pay_def split: option.splits)

lemma pay_loop_extends:
  "\<exists>ys. records (snd (pay_loop ops rs s)) = records s @ ys \<and> (\<forall>y \<in> set ys. is_pay y)"
proof (induction rs arbitrary: s)
  case Nil
  show ?case by simp
next
  case (Cons r rs)
  obtain e s1 where step: "pay_step ops r s = (e, s1)" by (cases "pay_step ops r s")
  from pay_step_extends [of ops r s] step obtain ys where
    ys: "records s1 = records s @ ys" "\<forall>y \<in> set ys. is_pay y"
    by auto
  show ?case
  proof (cases e)
    case (Some err)
    with step ys show ?thesis by auto
  next
    case None
    from Cons.IH [of s1] obtain zs where
      zs: "records (snd (pay_loop ops rs s1)) = records s1 @ zs" "\<forall>y \<in> set zs. is_pay y"
      by blast
    have "records (snd (pay_loop ops (r # rs) s)) = records s @ (ys @ zs)"
      using step None ys(1) zs(1) by simp
    moreover have "\<forall>y \<in> set (ys @ zs). is_pay y"
      using ys(2) zs(2) by auto
    ultimately show ?thesis by blast
  qed
qed

lemma pay_loop_runs:
  "fst (pay_loop ops rs s) = None \<longleftrightarrow>
     (amount_val s \<noteq> None \<or> rs = [] \<or> to_float ops (hd rs ''amount'') \<noteq> None)"
proof (induction rs arbitrary: s)
  case Nil
  show ?case by simp
next
  case (Cons r rs)
  show ?case
  proof (cases "amount_val (try_float ops r s)")
    case None
    then show ?thesis
      by (auto simp: pay_step_def Let_def try_float_amount_val split: option.splits)
  next
    case (Some v)
    then have "pay_loop ops (r # rs) s
        = pay_loop ops rs (append_record (pay_record r (format_2f ops v)) (try_float ops r s))"
      by (simp add: pay_step_def Let_def)
    moreover have "amount_val (append_record (pay_record r (format_2f ops v)) (try_float ops r s)) = Some v"
      using Some by (simp add: append_record_def)
    ultimately have "fst (pay_loop ops (r # rs) s) = None"
      using Cons.IH by simp
    then show ?thesis
      using Some by (auto simp: try_float_amount_val split: option.splits)
  qed
qed

lemma process_csv_Inr:
  assumes "process_csv ops now a = (Inr out, s)"
  shows "required_cols \<subseteq> set (columns (df a))"
    and "records s = header_block (strftime_ymd now) a @ pay_records ops (rows (df a))
           @ [contra_record a (format_2f ops (fsum ops (numbers (column (df a) ''amount''))))]
           @ trailer_block"
    and "out = serialize ops (records s)"
    and "\<forall>c \<in> set (column (df a) ''amount''). \<not> is_text c"
proof -
  show req: "required_cols \<subseteq> set (columns (df a))"
    using assms by (auto simp: process_csv_def Let_def enter_def split: if_splits)
  define s1 where "s1 = (enter a)\<lparr>records := header_block (strftime_ymd now) a\<rparr>"
  have s1: "args s1 = a" "records s1 = header_block (strftime_ymd now) a" "amount_val s1 = None"
    by (simp_all add: s1_def enter_def)
  obtain e s2 where loop: "pay_loop ops (rows (df a)) s1 = (e, s2)"
    by (cases "pay_loop ops (rows (df a)) s1")
  have args2: "args s2 = a"
    using pay_loop_args [of ops "rows (df a)" s1] loop s1(1) by simp
  have unfold: "process_csv ops now a =
      (case e of Some err \<Rightarrow> (Inl err, s2)
       | None \<Rightarrow>
         (case series_sum ops (column (df a) ''amount'') of
            Inl err \<Rightarrow> (Inl err, s2)
          | Inr total_ammount \<Rightarrow>
              (case format_total ops total_ammount of
                 Inl err \<Rightarrow> (Inl err, s2)
               | Inr t \<Rightarrow>
                   (Inr (serialize ops (records s2 @ [contra_record a t] @ trailer_block)),
                    s2\<lparr>records := records s2 @ [contra_record a t] @ trailer_block\<rparr>))))"
    using req loop args2 s1
    by (simp add: process_csv_def Let_def s1_def enter_def append_record_def
          split: option.splits sum.splits)
  from assms unfold obtain tot t where
    e: "e = None" and tot: "series_sum ops (column (df a) ''amount'') = Inr tot"
    and t: "format_total ops tot = Inr t"
    and out: "out = serialize ops (records s2 @ [contra_record a t] @ trailer_block)"
    and s: "s = s2\<lparr>records := records s2 @ [contra_record a t] @ trailer_block\<rparr>"
    by (auto split: option.splits sum.splits)
  from loop e have "pay_loop ops (rows (df a)) s1 = (None, s2)" by simp
  from pay_loop_ok [OF this s1(3)] have recs2: "records s2 = records s1 @ pay_records ops (rows (df a))"
    by simp
  from total_ok [OF tot t] have t_eq: "t = format_2f ops (fsum ops (numbers (column (df a) ''amount'')))"
    and nt: "\<forall>c \<in> set (column (df a) ''amount''). \<not> is_text c" by simp_all
  show "records s = header_block (strftime_ymd now) a @ pay_records ops (rows (df a))
           @ [contra_record a (format_2f ops (fsum ops (numbers (column (df a) ''amount''))))]
           @ trailer_block"
    using s recs2 s1(2) t_eq by simp
  show "out = serialize ops (records s)" using out s by simp
  show "\<forall>c \<in> set (column (df a) ''amount''). \<not> is_text c" by (rule nt)
qed

lemma process_csv_missing:
  assumes "\<not> required_cols \<subseteq> set (columns (df a))"
  shows "process_csv ops now a
    = (Inl (MissingColumns (required_cols - set (columns (df a)))), enter a)"
  using assms by (simp add: process_csv_def Let_def enter_def)

lemma process_csv_frame:
  assumes "required_cols \<subseteq> set (columns (df a))"
  shows "\<exists>ys zs. records (snd (process_csv ops now a)) = header_block (strftime_ymd now) a @ ys @ zs
      \<and> (\<forall>y \<in> set ys. is_pay y)
      \<and> (zs = [] \<or> (\<exists>t. zs = contra_record a t # trailer_block))"
proof -
  define s1 where "s1 = (enter a)\<lparr>records := header_block (strftime_ymd now) a\<rparr>"
  have s1: "args s1 = a" "records s1 = header_block (strftime_ymd now) a"
    by (simp_all add: s1_def enter_def)
  obtain e s2 where loop: "pay_loop ops (rows (df a)) s1 = (e, s2)"
    by (cases "pay_loop ops (rows (df a)) s1")
  from pay_loop_extends [of ops "rows (df a)" s1] loop s1(2) obtain ys where
    ys: "records s2 = header_block (strftime_ymd now) a @ ys" "\<forall>y \<in> set ys. is_pay y"
    by auto
  have args2: "args s2 = a"
    using pay_loop_args [of ops "rows (df a)" s1] loop s1(1) by simp
  have "records (snd (process_csv ops now a)) = records s2
      \<or> (\<exists>t. records (snd (process_csv ops now a)) = records s2 @ contra_record a t # trailer_block)"
    using assms loop args2 s1
    by (auto simp: process_csv_def Let_def s1_def enter_def append_record_def
          split: option.splits sum.splits)
  then show ?thesis
  proof
    assume "records (snd (process_csv ops now a)) = records s2"
    then have "records (snd (process_csv ops now a)) = header_block (strftime_ymd now) a @ ys @ []"
      using ys(1) by simp
    then show ?thesis using ys(2) by blast
  next
    assume "\<exists>t. records (snd (process_csv ops now a)) = records s2 @ contra_record a t # trailer_block"
    then obtain t where
      "records (snd (process_csv ops now a))
         = header_block (strftime_ymd now) a @ ys @ (contra_record a t # trailer_block)"
      using ys(1) by auto
    then show ?thesis using ys(2) by blast
  qed
qed

lemma process_csv_args: "args (snd (process_csv ops now a)) = a"
proof (cases "required_cols \<subseteq> set (columns (df a))")
  case False
  then show ?thesis by (simp add: process_csv_missing enter_def)
next
  case True
  define s1 where "s1 = (enter a)\<lparr>records := header_block (strftime_ymd now) a\<rparr>"
  have s1: "args s1 = a" by (simp add: s1_def enter_def)
  obtain e s2 where loop: "pay_loop ops (rows (df a)) s1 = (e, s2)"
    by (cases "pay_loop ops (rows (df a)) s1")
  have args2: "args s2 = a"
    using pay_loop_args [of ops "rows (df a)" s1] loop s1 by simp
  show ?thesis
    using True loop args2 s1
    by (simp add: process_csv_def Let_def s1_def enter_def append_record_def
          split: option.splits sum.splits)
qed





lemma is_digit_digit_char: "is_digit (digit_char n)"
proof -
  have "n mod 10 < 10" by simp
  then have "n mod 10 \<in> {0, 1, 2, 3, 4, 5, 6, 7, 8, 9}" by simp arith
  then show ?thesis
    by (auto simp: is_digit_def digit_char_def)
qed

lemma zero_pad_2: "zero_pad 2 n = [digit_char (n div 10), digit_char n]"
proof -
  have "(2::nat) = Suc (Suc 0)" by simp
  then show ?thesis by (simp only: zero_pad.simps append_Nil append_Cons)
qed

lemma zero_pad_4:
  "zero_pad 4 n = [digit_char (n div 10 div 10 div 10), digit_char (n div 10 div 10),
     digit_char (n div 10), digit_char n]"
proof -
  have "(4::nat) = Suc (Suc (Suc (Suc 0)))" by simp
  then show ?thesis by (simp only: zero_pad.simps append_Nil append_Cons)
qed

lemma is_iso_date_strftime: "is_iso_date (strftime_ymd t)"
  by (simp add: is_iso_date_def strftime_ymd_def zero_pad_2 zero_pad_4 is_digit_digit_char)

section \<open>The reader on what the writer wrote\<close>

lemma needs_quotes_plain: "needs_quotes f \<longleftrightarrow> \<not> (\<forall>c \<in> set f. plain c)"
  by (auto simp: needs_quotes_def plain_def)

lemma read_chars_append:
  "read_chars r (xs @ ys) = (case read_chars r xs of None \<Rightarrow> None | Some r1 \<Rightarrow> read_chars r1 ys)"
  by (induction xs arbitrary: r) (auto split: option.splits)

lemma read_chars_then:
  "read_chars r xs = Some r1 \<Longrightarrow> read_chars r (xs @ ys) = read_chars r1 ys"
  by (simp add: read_chars_append)

lemma read_plain_in_field:
  "\<forall>c \<in> set xs. plain c \<Longrightarrow> state r = IN_FIELD \<Longrightarrow>
     read_chars r xs = Some (r\<lparr>field := field r @ xs\<rparr>)"
proof (induction xs arbitrary: r)
  case Nil
  then show ?case by simp
next
  case (Cons c cs)
  from Cons.prems have c: "plain c" and cs: "\<forall>c \<in> set cs. plain c" by simp_all
  have step: "read_char r c = Some (parse_add_char r c)"
    using c Cons.prems(2)
    by (simp add: read_char_def parse_process_char_def plain_def is_newline_def)
  have "state (parse_add_char r c) = IN_FIELD"
    using Cons.prems(2) by (simp add: parse_add_char_def)
  from Cons.IH [OF cs this] step show ?case
    by (simp add: parse_add_char_def)
qed

lemma read_quoted_body:
  "state r = IN_QUOTED_FIELD \<Longrightarrow>
     read_chars r (double_quotes xs) = Some (r\<lparr>field := field r @ xs\<rparr>)"
proof (induction xs arbitrary: r)
  case Nil
  then show ?case by simp
next
  case (Cons c cs)
  have step: "read_chars r (if c = quotechar then [quotechar, quotechar] else [c])
      = Some (parse_add_char r c)"
    using Cons.prems
    by (simp add: read_char_def parse_process_char_def end_of_line_def parse_add_char_def)
  have st: "state (parse_add_char r c) = IN_QUOTED_FIELD"
    using Cons.prems by (simp add: parse_add_char_def)
  have "read_chars r (double_quotes (c # cs)) = read_chars (parse_add_char r c) (double_quotes cs)"
    using read_chars_then [OF step] by simp
  with Cons.IH [OF st] show ?case
    by (simp add: parse_add_char_def)
qed

lemma needs_quotes_Nil [simp]: "\<not> needs_quotes []"
  by (simp add: needs_quotes_def)

lemma read_quoted_field:
  assumes "at_field_start r"
  shows "read_chars r ([quotechar] @ double_quotes f @ [quotechar])
    = Some (r\<lparr>state := QUOTE_IN_QUOTED_FIELD, field := f\<rparr>)"
proof -
  have open_quote: "read_chars r [quotechar] = Some (r\<lparr>state := IN_QUOTED_FIELD\<rparr>)"
    using assms
    by (auto simp: at_field_start_def read_char_def parse_process_char_def start_field_def
          is_newline_def)
  have body: "read_chars (r\<lparr>state := IN_QUOTED_FIELD\<rparr>) (double_quotes f)
      = Some (r\<lparr>state := IN_QUOTED_FIELD, field := f\<rparr>)"
    using read_quoted_body [of "r\<lparr>state := IN_QUOTED_FIELD\<rparr>" f] assms
    by (simp add: at_field_start_def)
  have close_quote: "read_chars (r\<lparr>state := IN_QUOTED_FIELD, field := f\<rparr>) [quotechar]
      = Some (r\<lparr>state := QUOTE_IN_QUOTED_FIELD, field := f\<rparr>)"
    by (simp add: read_char_def parse_process_char_def)
  show ?thesis
    by (simp only: read_chars_then [OF open_quote] read_chars_then [OF body] close_quote)
qed

lemma read_plain_field:
  assumes "at_field_start r" and "\<forall>c \<in> set f. plain c" and "f \<noteq> []"
  shows "read_chars r f = Some (r\<lparr>state := IN_FIELD, field := f\<rparr>)"
proof -
  from assms(3) obtain c cs where f: "f = c # cs" by (cases f) auto
  with assms(2) have c: "plain c" and cs: "\<forall>c \<in> set cs. plain c" by simp_all
  have first: "read_char r c = Some (r\<lparr>state := IN_FIELD, field := [c]\<rparr>)"
    using assms(1) c
    by (auto simp: at_field_start_def read_char_def parse_process_char_def start_field_def
          is_newline_def plain_def parse_add_char_def)
  have "read_chars (r\<lparr>state := IN_FIELD, field := [c]\<rparr>) cs
      = Some (r\<lparr>state := IN_FIELD, field := [c] @ cs\<rparr>)"
    using read_plain_in_field [OF cs, of "r\<lparr>state := IN_FIELD, field := [c]\<rparr>"] by simp
  with first show ?thesis by (simp add: f)
qed

lemma read_field:
  assumes "at_field_start r"
  shows "read_chars r (join_append f) = Some (after_field r f)"
proof (cases "needs_quotes f")
  case True
  then have "f \<noteq> []" by auto
  with True read_quoted_field [OF assms, of f] show ?thesis
    by (simp add: join_append_def after_field_def)
next
  case False
  show ?thesis
  proof (cases "f = []")
    case True
    then show ?thesis by (simp add: join_append_def after_field_def)
  next
    case nonempty: False
    from False have "\<forall>c \<in> set f. plain c" by (simp add: needs_quotes_plain)
    from read_plain_field [OF assms this nonempty] False nonempty show ?thesis
      by (simp add: join_append_def after_field_def)
  qed
qed

lemma read_delimiter:
  assumes "at_field_start r"
  shows "read_char (after_field r f) delimiter
    = Some (r\<lparr>state := START_FIELD, saved := saved r @ [f], field := []\<rparr>)"
  using assms
  by (auto simp: at_field_start_def after_field_def read_char_def parse_process_char_def
        start_field_def is_newline_def parse_save_field_def)

lemma read_line_end:
  assumes "at_field_start r" and "state r = START_FIELD \<or> f \<noteq> []"
  shows "read_chars (after_field r f) [CR, LF]
    = Some (r\<lparr>state := START_RECORD, returned := returned r @ [saved r @ [f]],
          saved := [], field := []\<rparr>)"
  using assms
  by (auto simp: at_field_start_def after_field_def read_char_def parse_process_char_def
        start_field_def is_newline_def parse_save_field_def end_of_line_def)

lemma read_fields_line:
  "state r = START_FIELD \<Longrightarrow> field r = [] \<Longrightarrow> fs \<noteq> [] \<Longrightarrow>
     read_chars r (join_fields fs @ [CR, LF])
       = Some (r\<lparr>state := START_RECORD, returned := returned r @ [saved r @ fs],
             saved := [], field := []\<rparr>)"
proof (induction fs arbitrary: r rule: join_fields.induct)
  case 1
  then show ?case by simp
next
  case (2 f)
  have start: "at_field_start r" using "2.prems" by (simp add: at_field_start_def)
  have "read_chars r (join_append f @ [CR, LF]) = read_chars (after_field r f) [CR, LF]"
    by (rule read_chars_then [OF read_field [OF start]])
  also have "\<dots> = Some (r\<lparr>state := START_RECORD, returned := returned r @ [saved r @ [f]],
      saved := [], field := []\<rparr>)"
    by (rule read_line_end [OF start]) (simp add: "2.prems")
  finally show ?case by simp
next
  case (3 f g gs)
  have start: "at_field_start r" using "3.prems" by (simp add: at_field_start_def)
  define r1 where "r1 = r\<lparr>state := START_FIELD, saved := saved r @ [f], field := []\<rparr>"
  have first: "read_chars r (join_append f @ [delimiter]) = Some r1"
    using read_chars_then [OF read_field [OF start], of f "[delimiter]"] read_delimiter [OF start, of f]
    by (simp add: r1_def)
  have "read_chars r (join_fields (f # g # gs) @ [CR, LF])
      = read_chars r ((join_append f @ [delimiter]) @ (join_fields (g # gs) @ [CR, LF]))"
    by simp
  also have "\<dots> = read_chars r1 (join_fields (g # gs) @ [CR, LF])"
    by (rule read_chars_then [OF first])
  also have "\<dots> = Some (r1\<lparr>state := START_RECORD, returned := returned r1 @ [saved r1 @ (g # gs)],
      saved := [], field := []\<rparr>)"
    by (rule "3.IH") (simp_all add: r1_def)
  finally show ?case by (simp add: r1_def)
qed

lemma read_writerow:
  assumes "state r = START_RECORD" and "field r = []" and "saved r = []"
  shows "read_chars r (writerow fs) = Some (r\<lparr>returned := returned r @ [fs]\<rparr>)"
proof -
  have start: "at_field_start r" using assms by (simp add: at_field_start_def)
  have same: "r\<lparr>state := START_RECORD, returned := returned r @ [fs], saved := [], field := []\<rparr>
      = r\<lparr>returned := returned r @ [fs]\<rparr>"
    using assms by simp
  consider (empty) "fs = []" | (blank) "fs = [[]]" | (one) f where "fs = [f]" "f \<noteq> []"
    | (more) f g gs where "fs = f # g # gs"
    by (cases fs rule: join_fields.cases) auto
  then show ?thesis
  proof cases
    case empty
    then show ?thesis
      using assms
      by (simp add: writerow_def read_char_def parse_process_char_def is_newline_def
            end_of_line_def)
  next
    case blank
    then show ?thesis
      using assms
      by (simp add: writerow_def read_char_def parse_process_char_def start_field_def
            is_newline_def end_of_line_def parse_save_field_def)
  next
    case one
    have "read_chars r (join_append f @ [CR, LF]) = read_chars (after_field r f) [CR, LF]"
      by (rule read_chars_then [OF read_field [OF start]])
    also have "\<dots> = Some (r\<lparr>state := START_RECORD, returned := returned r @ [saved r @ [f]],
        saved := [], field := []\<rparr>)"
      by (rule read_line_end [OF start]) (simp add: one)
    finally show ?thesis
      using one assms same by (simp add: writerow_def)
  next
    case more
    define r1 where "r1 = r\<lparr>state := START_FIELD, saved := saved r @ [f], field := []\<rparr>"
    have first: "read_chars r (join_append f @ [delimiter]) = Some r1"
      using read_chars_then [OF read_field [OF start], of f "[delimiter]"]
        read_delimiter [OF start, of f]
      by (simp add: r1_def)
    have "read_chars r (writerow fs)
        = read_chars r ((join_append f @ [delimiter]) @ (join_fields (g # gs) @ [CR, LF]))"
      by (simp add: writerow_def more)
    also have "\<dots> = read_chars r1 (join_fields (g # gs) @ [CR, LF])"
      by (rule read_chars_then [OF first])
    also have "\<dots> = Some (r1\<lparr>state := START_RECORD,
        returned := returned r1 @ [saved r1 @ (g # gs)], saved := [], field := []\<rparr>)"
      by (rule read_fields_line) (simp_all add: r1_def)
    finally show ?thesis
      using more assms same by (simp add: r1_def)
  qed
qed

lemma read_writerows:
  "state r = START_RECORD \<Longrightarrow> field r = [] \<Longrightarrow> saved r = [] \<Longrightarrow>
     read_chars r (writerows rs) = Some (r\<lparr>returned := returned r @ rs\<rparr>)"
proof (induction rs arbitrary: r)
  case Nil
  then show ?case by (simp add: writerows_def)
next
  case (Cons fs rs)
  define r1 where "r1 = r\<lparr>returned := returned r @ [fs]\<rparr>"
  have first: "read_chars r (writerow fs) = Some r1"
    unfolding r1_def by (rule read_writerow) (fact Cons.prems)+
  have "read_chars r (writerows (fs # rs)) = read_chars r1 (writerows rs)"
    using read_chars_then [OF first] by (simp add: writerows_def)
  also have "\<dots> = Some (r1\<lparr>returned := returned r1 @ rs\<rparr>)"
    by (rule Cons.IH) (simp_all add: r1_def Cons.prems)
  finally show ?case by (simp add: r1_def)
qed

lemma csv_reader_writerows: "csv_reader (writerows rs) = Some rs"
proof -
  have "read_chars new_reader (writerows rs) = Some (new_reader\<lparr>returned := returned new_reader @ rs\<rparr>)"
    by (rule read_writerows) (simp_all add: new_reader_def)
  then show ?thesis
    by (simp add: csv_reader_def end_of_input_def new_reader_def)
qed

section \<open>Evaluating the examples\<close>

lemma two_payments_cols: "required_cols \<subseteq> set (columns (df two_payments))"
  by (simp add: required_cols_def example_defs two_payments_def)

lemma two_payments_rows: "rows (df two_payments) = [smith, jones]"
  by (simp add: two_payments_def batch_def)

lemma two_payments_returns:
  "\<exists>out. fst (process_csv decimal_ops morning two_payments) = Inr out"
  by (simp add: run_defs example_defs two_payments_def)

lemma morning_date: "strftime_ymd morning = ''2024-01-15''"
  by (simp add: strftime_ymd_def morning_def zero_pad_2 zero_pad_4 digit_char_def)

lemma smith_amount: "decimal_format_2f 15050 = ''150.50''"
  by (simp add: decimal_format_2f_def show_nat.simps zero_pad_2 digit_char_def)


lemma one_payment_records:
  "records (snd (process_csv decimal_ops morning one_payment)) =
     header_block ''2024-01-15'' one_payment
     @ [pay_record smith ''150.50'', contra_record one_payment ''150.50'']
     @ trailer_block"
  by (simp add: run_defs example_defs one_payment_def morning_date smith_amount pay_record_def contra_record_def)

lemma one_payment_returns:
  "fst (process_csv decimal_ops morning one_payment)
     = Inr (serialize decimal_ops (records (snd (process_csv decimal_ops morning one_payment))))"
  by (simp add: run_defs example_defs one_payment_def)

lemma unnamed_payment_returns:
  "fst (process_csv decimal_ops morning unnamed_payment)
     = Inr (serialize decimal_ops (records (snd (process_csv decimal_ops morning unnamed_payment))))"
  by (simp add: run_defs example_defs unnamed_payment_def)

lemma unnamed_payment_record:
  "records (snd (process_csv decimal_ops morning unnamed_payment)) ! 4 ! 1 = Missing"
  by (simp add: run_defs example_defs unnamed_payment_def header_block_def pay_record_def)

lemma text_field_text: "is_text c \<Longrightarrow> Text (field_text ops c) = c"
  by (cases c) simp_all

lemma text_fields_text:
  assumes "\<forall>r \<in> set rs. \<forall>c \<in> set r. is_text c"
  shows "map (map Text) (map (map (field_text ops)) rs) = rs"
proof -
  have "map (\<lambda>c. Text (field_text ops c)) r = r" if "r \<in> set rs" for r
    using assms that by (simp add: map_idI text_field_text)
  then show ?thesis
    by (simp add: map_idI comp_def)
qed

section \<open>The properties\<close>

text \<open>
  C1, as stated: every data frame with the six required columns and \<open>N\<close> rows gives a
  list of \<open>N + 8\<close> records. A frame with one row whose amount is a string has the
  six columns; the call fails at the aggregate, and the list it has built holds the
  header block and one PAY record.
\<close>

theorem record_order_counterexample:
  "required_cols \<subseteq> set (columns (df text_amount))
   \<and> length (rows (df text_amount)) = 1
   \<and> length (records (snd (process_csv decimal_ops morning text_amount))) = 5"
  by (simp add: run_defs example_defs text_amount_def decimal_of_str_def digit_val_def header_block_def)

text \<open>
  C1, amended. For a data frame with the six required columns and \<open>N\<close> rows on which
  \<open>process_csv\<close> returns, the list of records has \<open>N + 8\<close> elements: the first four are
  tagged VOL, HDR1, HDR2, UHL1, the last three EOF1, EOF2, UTL1, the record at position
  \<open>4 + i\<close> is the PAY record of row \<open>i\<close> (with the formatted amount of that row when it
  parses), and the CONTRA record follows the last PAY record.
\<close>

theorem record_order:
  assumes "required_cols \<subseteq> set (columns (df a))"
    and "fst (process_csv ops now a) = Inr out"
  shows "length (records (snd (process_csv ops now a))) = length (rows (df a)) + 8
    \<and> map hd (take 4 (records (snd (process_csv ops now a))))
        = [Text ''VOL'', Text ''HDR1'', Text ''HDR2'', Text ''UHL1'']
    \<and> map hd (drop (length (rows (df a)) + 5) (records (snd (process_csv ops now a))))
        = [Text ''EOF1'', Text ''EOF2'', Text ''UTL1'']
    \<and> (\<forall>i < length (rows (df a)). \<exists>amount.
          records (snd (process_csv ops now a)) ! (4 + i) = pay_record (rows (df a) ! i) amount
          \<and> (\<forall>x. to_float ops ((rows (df a) ! i) ''amount'') = Some x
                \<longrightarrow> amount = format_2f ops x))
    \<and> hd (records (snd (process_csv ops now a)) ! (4 + length (rows (df a)))) = Text ''CONTRA''"
proof -
  obtain s where run: "process_csv ops now a = (Inr out, s)"
    using assms(2) by (cases "process_csv ops now a") simp
  have len_h: "length (header_block (strftime_ymd now) a) = 4"
    by (simp add: header_block_def)
  note recs = process_csv_Inr(2) [OF run]
  have carried: "\<forall>i < length (rows (df a)).
      records s ! (4 + i) = pay_record (rows (df a) ! i)
        (format_2f ops (last (parsed ops (take (Suc i) (rows (df a))))))"
    using recs len_h by (simp add: nth_append pay_records_def)
  have pay: "\<forall>i < length (rows (df a)). \<exists>amount.
      records s ! (4 + i) = pay_record (rows (df a) ! i) amount
      \<and> (\<forall>x. to_float ops ((rows (df a) ! i) ''amount'') = Some x \<longrightarrow> amount = format_2f ops x)"
  proof (intro allI impI)
    fix i assume i: "i < length (rows (df a))"
    let ?amount = "format_2f ops (last (parsed ops (take (Suc i) (rows (df a)))))"
    have "records s ! (4 + i) = pay_record (rows (df a) ! i) ?amount"
      using carried i by blast
    moreover have "\<forall>x. to_float ops ((rows (df a) ! i) ''amount'') = Some x
        \<longrightarrow> ?amount = format_2f ops x"
      using i by (simp add: last_parsed_take_Suc)
    ultimately show "\<exists>amount. records s ! (4 + i) = pay_record (rows (df a) ! i) amount
        \<and> (\<forall>x. to_float ops ((rows (df a) ! i) ''amount'') = Some x
              \<longrightarrow> amount = format_2f ops x)"
      by blast
  qed
  have "length (records s) = length (rows (df a)) + 8"
    using recs len_h by (simp add: trailer_block_def)
  moreover have "map hd (take 4 (records s))
      = [Text ''VOL'', Text ''HDR1'', Text ''HDR2'', Text ''UHL1'']"
    using recs len_h by (simp add: header_block_def)
  moreover have "map hd (drop (length (rows (df a)) + 5) (records s))
      = [Text ''EOF1'', Text ''EOF2'', Text ''UTL1'']"
    using recs len_h by (simp add: trailer_block_def)
  moreover have "hd (records s ! (4 + length (rows (df a)))) = Text ''CONTRA''"
    using recs len_h by (simp add: nth_append contra_record_def)
  ultimately show ?thesis
    using pay by (simp only: run snd_conv)
qed

theorem record_order_witness:
  "length (records (snd (process_csv decimal_ops morning two_payments))) = 10
   \<and> records (snd (process_csv decimal_ops morning two_payments)) ! 4
       = pay_record smith ''150.50''
   \<and> hd (records (snd (process_csv decimal_ops morning two_payments)) ! 6) = Text ''CONTRA''"
proof -
  from two_payments_returns obtain out where
    out: "fst (process_csv decimal_ops morning two_payments) = Inr out" ..
  have amt: "to_float decimal_ops (smith ''amount'') = Some 15050"
    by (simp add: smith_def payment_def mk_row_def)
  note c = record_order [OF two_payments_cols out]
  from c have "0 < length (rows (df two_payments)) \<longrightarrow> (\<exists>amount.
      records (snd (process_csv decimal_ops morning two_payments)) ! (4 + 0)
        = pay_record (rows (df two_payments) ! 0) amount
      \<and> (\<forall>x. to_float decimal_ops ((rows (df two_payments) ! 0) ''amount'') = Some x
            \<longrightarrow> amount = format_2f decimal_ops x))"
    by blast
  then have "records (snd (process_csv decimal_ops morning two_payments)) ! 4
      = pay_record smith ''150.50''"
    using amt by (auto simp: two_payments_rows decimal_ops_def smith_amount)
  moreover from c have "length (records (snd (process_csv decimal_ops morning two_payments))) = 10"
    by (simp add: two_payments_rows)
  moreover from c have
    "hd (records (snd (process_csv decimal_ops morning two_payments)) ! 6) = Text ''CONTRA''"
    by (simp add: two_payments_rows)
  ultimately show ?thesis by blast
qed

text \<open>
  C2. When a required column is absent, \<open>process_csv\<close> fails with the error that
  carries exactly the required names that are not columns of the frame, and no record
  has been built.
\<close>

theorem missing_columns_reported:
  assumes "\<not> required_cols \<subseteq> set (columns (df a))"
  shows "fst (process_csv ops now a) = Inl (MissingColumns (required_cols - set (columns (df a))))
    \<and> records (snd (process_csv ops now a)) = []"
  using assms by (simp add: process_csv_missing enter_def)

theorem missing_columns_reported_witness:
  "fst (process_csv decimal_ops morning no_amount_column) = Inl (MissingColumns {''amount''})
   \<and> records (snd (process_csv decimal_ops morning no_amount_column)) = []"
proof -
  have cols: "\<not> required_cols \<subseteq> set (columns (df no_amount_column))"
    by (simp add: required_cols_def no_amount_column_def batch_def)
  have diff: "required_cols - set (columns (df no_amount_column)) = {''amount''}"
    by (auto simp: required_cols_def no_amount_column_def batch_def)
  from missing_columns_reported [OF cols, of decimal_ops morning] show ?thesis
    by (simp only: diff)
qed

text \<open>
  C3, as stated: every data frame that passes validation gives a CONTRA record whose
  amount is the formatted sum. On the frame whose amount is a string the call fails
  when it formats the sum, and no CONTRA record is built.
\<close>

theorem contra_amount_counterexample:
  "required_cols \<subseteq> set (columns (df text_amount))
   \<and> fst (process_csv decimal_ops morning text_amount) = Inl ValueError
   \<and> Text ''CONTRA'' \<notin> set (map hd (records (snd (process_csv decimal_ops morning text_amount))))"
  by (simp add: run_defs example_defs text_amount_def decimal_of_str_def digit_val_def header_block_def
        pay_record_def)

text \<open>
  C3, amended. When \<open>process_csv\<close> returns, field 4 of the CONTRA record is the
  two-decimal format of the sum of the amount column (the sum skips \<open>None\<close>).
\<close>

theorem contra_amount_is_column_sum:
  assumes "required_cols \<subseteq> set (columns (df a))"
    and "fst (process_csv ops now a) = Inr out"
  shows "hd (records (snd (process_csv ops now a)) ! (4 + length (rows (df a)))) = Text ''CONTRA''
    \<and> records (snd (process_csv ops now a)) ! (4 + length (rows (df a))) ! 4
        = Text (format_2f ops (fsum ops (numbers (column (df a) ''amount''))))"
proof -
  obtain s where run: "process_csv ops now a = (Inr out, s)"
    using assms(2) by (cases "process_csv ops now a") simp
  have len_h: "length (header_block (strftime_ymd now) a) = 4"
    by (simp add: header_block_def)
  have "records s ! (4 + length (rows (df a)))
      = contra_record a (format_2f ops (fsum ops (numbers (column (df a) ''amount''))))"
    using process_csv_Inr(2) [OF run] len_h by (simp add: nth_append)
  then show ?thesis
    by (simp add: run contra_record_def)
qed

theorem contra_amount_is_column_sum_witness:
  "records (snd (process_csv decimal_ops morning two_payments)) ! 6 ! 4 = Text ''150.50''"
proof -
  from two_payments_returns obtain out where
    out: "fst (process_csv decimal_ops morning two_payments) = Inr out" ..
  have amt: "format_2f decimal_ops (fsum decimal_ops (numbers (column (df two_payments) ''amount'')))
      = ''150.50''"
    by (simp add: two_payments_def batch_def column_def smith_def jones_def payment_def mk_row_def
          decimal_ops_def smith_amount)
  from contra_amount_is_column_sum [OF two_payments_cols out] show ?thesis
    by (simp add: two_payments_rows amt)
qed

text \<open>
  C4. A row whose amount does not parse should still give a PAY record. When no
  earlier row has parsed, the code reads the unbound name \<open>amount_val\<close> instead: on a
  frame whose only row has the amount \<open>None\<close>, the call fails with
  \<open>UnboundLocalError\<close> and the list of records holds the header block only.
\<close>

theorem unparsable_first_row_aborts:
  "fst (process_csv decimal_ops morning unparsable_first) = Inl UnboundLocalError
   \<and> records (snd (process_csv decimal_ops morning unparsable_first))
       = header_block ''2024-01-15'' unparsable_first"
  by (simp add: run_defs example_defs unparsable_first_def morning_date)

text \<open>
  C5, as stated: every frame with the required columns makes \<open>process_csv\<close> return.
  A frame whose amounts are strings has the required columns and fails with
  \<open>ValueError\<close>, when the sum of the column, a string, is formatted.
\<close>

theorem text_amounts_raise:
  "required_cols \<subseteq> set (columns (df text_amount))
   \<and> fst (process_csv decimal_ops morning text_amount) = Inl ValueError"
  by (simp add: run_defs example_defs text_amount_def decimal_of_str_def digit_val_def)

text \<open>
  C5, amended. For a frame with the required columns: when every cell of the amount
  column is a number, \<open>process_csv\<close> returns the text; when a cell of the amount
  column is a string, \<open>process_csv\<close> fails.
\<close>

theorem returns_on_numeric_amounts:
  assumes "required_cols \<subseteq> set (columns (df a))"
  shows "((\<forall>c \<in> set (column (df a) ''amount''). is_number c)
            \<longrightarrow> (\<exists>out. fst (process_csv ops now a) = Inr out))
    \<and> ((\<exists>c \<in> set (column (df a) ''amount''). is_text c)
            \<longrightarrow> (\<exists>e. fst (process_csv ops now a) = Inl e))"
proof (intro conjI impI)
  assume num: "\<forall>c \<in> set (column (df a) ''amount''). is_number c"
  define s1 where "s1 = (enter a)\<lparr>records := header_block (strftime_ymd now) a\<rparr>"
  have s1: "args s1 = a" by (simp add: s1_def enter_def)
  obtain e s2 where loop: "pay_loop ops (rows (df a)) s1 = (e, s2)"
    by (cases "pay_loop ops (rows (df a)) s1")
  have "rows (df a) = [] \<or> to_float ops (hd (rows (df a)) ''amount'') \<noteq> None"
  proof (cases "rows (df a)")
    case Nil
    then show ?thesis by simp
  next
    case (Cons r rs)
    then have "is_number (r ''amount'')" using num by (simp add: column_def)
    then have "to_float ops (r ''amount'') \<noteq> None" by (cases "r ''amount''") simp_all
    then show ?thesis using Cons by simp
  qed
  then have "fst (pay_loop ops (rows (df a)) s1) = None"
    by (simp add: pay_loop_runs)
  then have e: "e = None" using loop by simp
  have args2: "args s2 = a"
    using pay_loop_args [of ops "rows (df a)" s1] loop s1 by simp
  have "\<forall>c \<in> set (column (df a) ''amount''). \<not> is_text c"
  proof
    fix c assume "c \<in> set (column (df a) ''amount'')"
    then have "is_number c" using num by blast
    then show "\<not> is_text c" by (cases c) simp_all
  qed
  then have sum: "series_sum ops (column (df a) ''amount'')
      = Inr (Number (fsum ops (numbers (column (df a) ''amount''))))"
    by (rule total_numeric)
  show "\<exists>out. fst (process_csv ops now a) = Inr out"
    using assms loop e args2 s1 sum
    by (simp add: process_csv_def Let_def s1_def enter_def)
next
  assume "\<exists>c \<in> set (column (df a) ''amount''). is_text c"
  then obtain c where c: "c \<in> set (column (df a) ''amount'')" "is_text c" by blast
  show "\<exists>e. fst (process_csv ops now a) = Inl e"
  proof (cases "fst (process_csv ops now a)")
    case (Inl e)
    then show ?thesis by blast
  next
    case (Inr out)
    then obtain s where "process_csv ops now a = (Inr out, s)"
      by (cases "process_csv ops now a") simp
    from process_csv_Inr(4) [OF this] c show ?thesis by blast
  qed
qed

theorem returns_on_numeric_amounts_witness:
  "(\<exists>out. fst (process_csv decimal_ops morning one_payment) = Inr out)
   \<and> (\<exists>e. fst (process_csv decimal_ops morning text_amount) = Inl e)"
proof -
  have cols: "required_cols \<subseteq> set (columns (df one_payment))"
    by (simp add: required_cols_def example_defs one_payment_def)
  have num: "\<forall>c \<in> set (column (df one_payment) ''amount''). is_number c"
    by (simp add: column_def example_defs one_payment_def)
  have cols_text: "required_cols \<subseteq> set (columns (df text_amount))"
    by (simp add: required_cols_def example_defs text_amount_def)
  have has_text: "\<exists>c \<in> set (column (df text_amount) ''amount''). is_text c"
    by (simp add: column_def example_defs text_amount_def)
  from returns_on_numeric_amounts [OF cols, of decimal_ops morning] num
    returns_on_numeric_amounts [OF cols_text, of decimal_ops morning] has_text
  show ?thesis by blast
qed



text \<open>
  C7, as stated: parsing the text that \<open>process_csv\<close> returns gives the records back,
  field for field. A record holds the cells of the row as they are; for a row whose
  beneficiary name is \<open>None\<close> the writer writes the empty string, and the parsed field
  is the empty string, not \<open>None\<close>.
\<close>

theorem round_trip_counterexample:
  "fst (process_csv decimal_ops morning unnamed_payment)
     = Inr (serialize decimal_ops (records (snd (process_csv decimal_ops morning unnamed_payment))))
   \<and> \<not> recovers (records (snd (process_csv decimal_ops morning unnamed_payment)))
         (serialize decimal_ops (records (snd (process_csv decimal_ops morning unnamed_payment))))"
proof -
  let ?rs = "records (snd (process_csv decimal_ops morning unnamed_payment))"
  have "map (map Text) (map (map (field_text decimal_ops)) ?rs) \<noteq> ?rs"
  proof
    assume eq: "map (map Text) (map (map (field_text decimal_ops)) ?rs) = ?rs"
    have len: "4 < length ?rs" "1 < length (?rs ! 4)"
      by (simp_all add: run_defs example_defs unnamed_payment_def header_block_def pay_record_def)
    have written: "map (map Text) (map (map (field_text decimal_ops)) ?rs) ! 4 ! 1
        = Text (field_text decimal_ops (?rs ! 4 ! 1))"
      using len by simp
    from eq have "map (map Text) (map (map (field_text decimal_ops)) ?rs) ! 4 ! 1 = ?rs ! 4 ! 1"
      by (rule arg_cong [where f = "\<lambda>xs. xs ! 4 ! 1"])
    with written [symmetric] have "Text (field_text decimal_ops (?rs ! 4 ! 1)) = ?rs ! 4 ! 1"
      by (rule trans)
    then have "Text (field_text decimal_ops Missing) = (Missing :: nat cell)"
      by (simp only: unnamed_payment_record)
    then show False by simp
  qed
  then show ?thesis
    by (simp add: unnamed_payment_returns recovers_def serialize_def csv_reader_writerows)
qed

text \<open>
  C7, amended. Parsing the text that \<open>process_csv\<close> returns gives, in order, the
  records as the writer wrote them: each parsed field is the text of the field of the
  record (the string itself, the empty string for \<open>None\<close>, \<open>str\<close> of a number). When
  every field of every record is a string, these are the records themselves.
\<close>

theorem round_trip:
  assumes "fst (process_csv ops now a) = Inr out"
  shows "csv_reader out = Some (map (map (field_text ops)) (records (snd (process_csv ops now a))))
    \<and> ((\<forall>r \<in> set (records (snd (process_csv ops now a))). \<forall>c \<in> set r. is_text c)
          \<longrightarrow> recovers (records (snd (process_csv ops now a))) out)"
proof -
  obtain s where run: "process_csv ops now a = (Inr out, s)"
    using assms by (cases "process_csv ops now a") simp
  have out: "out = writerows (map (map (field_text ops)) (records s))"
    using process_csv_Inr(3) [OF run] by (simp add: serialize_def)
  have parsed_rows: "csv_reader out = Some (map (map (field_text ops)) (records s))"
    by (simp only: out csv_reader_writerows)
  have "recovers (records s) out" if "\<forall>r \<in> set (records s). \<forall>c \<in> set r. is_text c"
    using text_fields_text [OF that, of ops] by (simp add: recovers_def parsed_rows)
  with parsed_rows show ?thesis
    by (simp add: run)
qed

theorem round_trip_witness:
  "recovers (records (snd (process_csv decimal_ops morning one_payment)))
     (serialize decimal_ops (records (snd (process_csv decimal_ops morning one_payment))))"
proof -
  have "\<forall>r \<in> set (records (snd (process_csv decimal_ops morning one_payment))).
      \<forall>c \<in> set r. is_text c"
    by (simp add: one_payment_records header_block_def trailer_block_def pay_record_def
          contra_record_def smith_def payment_def mk_row_def)
  with round_trip [OF one_payment_returns] show ?thesis by blast
qed

text \<open>
  C9, as stated: the VOL record is the tag, the institution tag HSBC, the issue date
  and empty fields. In the code the field after the tag is the constant 001.
\<close>

theorem vol_record_layout_counterexample:
  "records (snd (process_csv decimal_ops morning no_payments)) ! 0 ! 1 = Text ''001''
   \<and> records (snd (process_csv decimal_ops morning no_payments)) ! 0
       \<noteq> [Text ''VOL'', Text ''HSBC'', Text ''2024-01-15'',
           empty_field, empty_field, empty_field, empty_field, empty_field]"
  by (simp add: run_defs example_defs no_payments_def header_block_def morning_date)

text \<open>
  C9, amended. Past validation the first four records depend on the four strings and
  the issue date only: VOL carries 001, HSBC, the issue date and four empty fields;
  HDR1 the debtor name, the debtor account, HSBC and the issue date; HDR2 the label
  \<open>Payment Batch\<close> followed by the batch id, and the batch id; UHL1 the debtor name
  and the debtor account. The issue date has the form YYYY-MM-DD.
\<close>

theorem header_block_layout:
  assumes "required_cols \<subseteq> set (columns (df a))"
  shows "take 4 (records (snd (process_csv ops now a))) =
      [[Text ''VOL'', Text ''001'', Text ''HSBC'', Text (strftime_ymd now),
        Text [], Text [], Text [], Text []],
       [Text ''HDR1'', Text (debtor_name a), Text (debtor_account a), Text ''HSBC'',
        Text (strftime_ymd now), Text [], Text [], Text []],
       [Text ''HDR2'', Text (''Payment Batch '' @ batch_id a), Text (batch_id a),
        Text [], Text [], Text [], Text [], Text []],
       [Text ''UHL1'', Text (debtor_name a), Text (debtor_account a),
        Text [], Text [], Text [], Text [], Text []]]
    \<and> is_iso_date (strftime_ymd now)"
proof -
  from process_csv_frame [OF assms, of ops now] obtain ys zs where
    recs: "records (snd (process_csv ops now a)) = header_block (strftime_ymd now) a @ ys @ zs"
    by blast
  have "length (header_block (strftime_ymd now) a) = 4"
    by (simp add: header_block_def)
  then have "take 4 (records (snd (process_csv ops now a))) = header_block (strftime_ymd now) a"
    using recs by simp
  then show ?thesis
    by (simp add: header_block_def is_iso_date_strftime)
qed

theorem header_block_layout_witness:
  "take 4 (records (snd (process_csv decimal_ops morning two_payments))) =
      [[Text ''VOL'', Text ''001'', Text ''HSBC'', Text ''2024-01-15'',
        Text [], Text [], Text [], Text []],
       [Text ''HDR1'', Text ''ABC Ltd'', Text ''12345678'', Text ''HSBC'',
        Text ''2024-01-15'', Text [], Text [], Text []],
       [Text ''HDR2'', Text ''Payment Batch 001'', Text ''001'',
        Text [], Text [], Text [], Text [], Text []],
       [Text ''UHL1'', Text ''ABC Ltd'', Text ''12345678'',
        Text [], Text [], Text [], Text [], Text []]]
   \<and> is_iso_date ''2024-01-15''"
  using header_block_layout [OF two_payments_cols, of decimal_ops morning]
  by (simp add: morning_date two_payments_def batch_def)

text \<open>
  C10. After the call, whether it returned or failed, the data frame and the four
  strings that the arguments refer to are the ones passed in.
\<close>

theorem inputs_unchanged:
  "df (args (snd (process_csv ops now a))) = df a
   \<and> debtor_name (args (snd (process_csv ops now a))) = debtor_name a
   \<and> debtor_account (args (snd (process_csv ops now a))) = debtor_account a
   \<and> batch_id (args (snd (process_csv ops now a))) = batch_id a
   \<and> contra_sort_code (args (snd (process_csv ops now a))) = contra_sort_code a"
  by (simp add: process_csv_args)

end
